theory Spec2Isabelle
  imports
    Main
    "HOL-Library.Sublist"
    "HOL-Library.Char_ord"
    "HOL-Library.List_Lexorder"
    "HOL-Library.Multiset"
begin

section \<open>The post registry of \<^verbatim>\<open>backend/backend_app.py\<close>\<close>

text \<open>
  The module keeps one global list \<^verbatim>\<open>POSTS\<close> of dictionaries with the keys
  \<^verbatim>\<open>id\<close>, \<^verbatim>\<open>title\<close> and \<^verbatim>\<open>content\<close>. Every handler is modelled as a function that
  takes the request's parameters and the current value of \<^verbatim>\<open>POSTS\<close>, and returns the
  response together with the value of \<^verbatim>\<open>POSTS\<close> after the call.

  Request values are typed as the handlers' docstrings declare them: \<^verbatim>\<open>title\<close> and
  \<^verbatim>\<open>content\<close> are \<^verbatim>\<open>str\<close>, and \<^verbatim>\<open>dict.get\<close> / \<^verbatim>\<open>request.args.get\<close> give \<^verbatim>\<open>None\<close> for
  a key that is absent, hence \<open>string option\<close>. A \<^verbatim>\<open>str\<close> is the list of its characters,
  and \<^verbatim>\<open>==\<close>, \<^verbatim>\<open><\<close> and \<^verbatim>\<open>in\<close> on it are equality, the lexicographic order and the
  contiguous-substring test of \<open>string\<close>. Ids are Python integers, hence \<open>int\<close>.
  The elements of \<^verbatim>\<open>POSTS\<close> are separate objects (the two seeds, and one fresh dictionary
  per \<^verbatim>\<open>append\<close>), so the list of their values determines the registry.
\<close>

record post =
  p_id :: int
  p_title :: string
  p_content :: string

text \<open>The JSON documents the handlers return, and the response with its status code.\<close>

datatype body =
    PostList "post list"
  | PostObj post
  | ErrorMsg string
  | SuccessMsg string
  | MessageMsg string

type_synonym response = "body \<times> nat"

definition POSTS_seed :: "post list" where
  "POSTS_seed =
     [\<lparr>p_id = 1, p_title = ''First post'', p_content = ''This is the first post.''\<rparr>,
      \<lparr>p_id = 2, p_title = ''Second post'', p_content = ''This is the second post.''\<rparr>]"

subsection \<open>Python primitives the handlers use\<close>

text \<open>Truth value of \<^verbatim>\<open>None\<close> or a \<^verbatim>\<open>str\<close>: only a non-empty string is truthy.\<close>

fun truthy :: "string option \<Rightarrow> bool" where
  "truthy None = False"
| "truthy (Some s) = (s \<noteq> [])"

text \<open>
  \<^verbatim>\<open>str.lower\<close> is a built-in of Python: it folds every cased letter of Unicode, and it
  can change the length of a string. Its table is not part of the repository, so the
  handlers that call it take it as the parameter \<open>lower\<close>, a function on strings, and what
  is proved about them holds for every such function, under the assumption a theorem states.

  On a string of ASCII characters \<^verbatim>\<open>str.lower\<close> folds \<^verbatim>\<open>A\<close> to \<^verbatim>\<open>Z\<close> and keeps every
  other character. \<open>ascii_lower\<close> is that restriction, and it is not \<^verbatim>\<open>str.lower\<close> on other
  text: it stands for the parameter only where a handler is evaluated on ASCII requests.
\<close>

definition ascii_lower_char :: "char \<Rightarrow> char" where
  "ascii_lower_char c =
     (if CHR ''A'' \<le> c \<and> c \<le> CHR ''Z'' then char_of (of_char c + (32::nat)) else c)"

definition ascii_lower :: "string \<Rightarrow> string" where
  "ascii_lower s = map ascii_lower_char s"

text \<open>\<^verbatim>\<open>str(n)\<close> for an integer, as the f-strings of the messages render the id.\<close>

definition digit_char :: "nat \<Rightarrow> char" where
  "digit_char d = char_of (48 + d)"

function str_nat :: "nat \<Rightarrow> string" where
  "str_nat n = (if n < 10 then [digit_char n] else str_nat (n div 10) @ [digit_char (n mod 10)])"
  by pat_completeness auto
termination
  by (relation "measure (\<lambda>n. n)") auto

declare str_nat.simps [simp del]

definition str_int :: "int \<Rightarrow> string" where
  "str_int i = (if i < 0 then CHR ''-'' # str_nat (nat (- i)) else str_nat (nat i))"

text \<open>
  \<^verbatim>\<open>sorted(xs, key=key, reverse=reverse)\<close>: a stable sort by the key; with
  \<^verbatim>\<open>reverse=True\<close> the list is reversed, sorted stably and reversed again, so that
  elements with equal keys keep their original order in both directions.
\<close>

definition sorted_py :: "('a \<Rightarrow> 'k::linorder) \<Rightarrow> bool \<Rightarrow> 'a list \<Rightarrow> 'a list" where
  "sorted_py key reverse xs = (if reverse then rev (sort_key key (rev xs)) else sort_key key xs)"

subsection \<open>\<^verbatim>\<open>get_posts\<close>\<close>

definition get_title :: "(string \<Rightarrow> string) \<Rightarrow> post \<Rightarrow> string" where
  "get_title lower post = lower (p_title post)"

definition get_content :: "(string \<Rightarrow> string) \<Rightarrow> post \<Rightarrow> string" where
  "get_content lower post = lower (p_content post)"

definition get_posts ::
  "(string \<Rightarrow> string) \<Rightarrow> string option \<Rightarrow> string option \<Rightarrow> post list \<Rightarrow> response \<times> post list" where
  "get_posts lower sort_tag direction POSTS =
     (let direction_tag = (case direction of None \<Rightarrow> ''asc'' | Some d \<Rightarrow> d);
          posts = POSTS;
          posts' =
            (if sort_tag = Some ''title'' then
               sorted_py (get_title lower) (lower direction_tag = ''desc'') posts
             else if sort_tag = Some ''content'' then
               sorted_py (get_content lower) (lower direction_tag = ''desc'') posts
             else posts)
      in ((PostList posts', 200), POSTS))"

subsection \<open>\<^verbatim>\<open>add_post\<close>\<close>

text \<open>\<open>the\<close> is applied to a truthy value only, which is \<open>Some\<close> string.\<close>

definition add_post :: "string option \<Rightarrow> string option \<Rightarrow> post list \<Rightarrow> response \<times> post list" where
  "add_post title content POSTS =
     (if \<not> truthy title \<or> \<not> truthy content then
        ((ErrorMsg ''Please fill out required fields'', 400), POSTS)
      else
        (let new_post = \<lparr>p_id = int (length POSTS) + 1, p_title = the title, p_content = the content\<rparr>
         in ((PostObj new_post, 201), POSTS @ [new_post])))"

subsection \<open>\<^verbatim>\<open>delete_post\<close>\<close>

text \<open>
  The loop over \<^verbatim>\<open>POSTS\<close>: the third argument is the part of the list still to visit.
  \<^verbatim>\<open>POSTS.remove(post)\<close> removes the first element equal to \<^verbatim>\<open>post\<close>, which is
  \<open>remove1\<close>.
\<close>

fun delete_loop :: "int \<Rightarrow> post list \<Rightarrow> post list \<Rightarrow> response \<times> post list" where
  "delete_loop post_id POSTS [] =
     ((ErrorMsg (''Post with id ('' @ str_int post_id @ '') do not exist.''), 404), POSTS)"
| "delete_loop post_id POSTS (post # rest) =
     (if p_id post = post_id then
        ((SuccessMsg (''Post with id ('' @ str_int post_id @ '') has been deleted successfully.''), 200),
         remove1 post POSTS)
      else delete_loop post_id POSTS rest)"

definition delete_post :: "int \<Rightarrow> post list \<Rightarrow> response \<times> post list" where
  "delete_post post_id POSTS = delete_loop post_id POSTS POSTS"

subsection \<open>\<^verbatim>\<open>update_post\<close>\<close>

text \<open>
  The loop visits the posts in order and assigns to the keys of the first one whose id
  matches; the posts before and after it stay as they are. A response without an explicit
  status code is sent with 200.
\<close>

fun update_loop :: "int \<Rightarrow> string option \<Rightarrow> string option \<Rightarrow> post list \<Rightarrow> response \<times> post list" where
  "update_loop post_id new_title new_content [] =
     ((ErrorMsg (''Post with id ('' @ str_int post_id @ '') do not exist.''), 404), [])"
| "update_loop post_id new_title new_content (post # rest) =
     (if p_id post = post_id then
        (if \<not> truthy new_title \<and> \<not> truthy new_content then
           ((ErrorMsg ''Bad request: Nothing was changed'', 400), post # rest)
         else
           (let is_new_title = truthy new_title;
                post1 = (if truthy new_title then post\<lparr>p_title := the new_title\<rparr> else post)
            in if truthy new_content then
                 (let post2 = post1\<lparr>p_content := the new_content\<rparr>
                  in if is_new_title then
                       ((MessageMsg (''title and content of post ('' @ str_int post_id @ '') was updated.''), 200),
                        post2 # rest)
                     else
                       ((MessageMsg (''content of post ('' @ str_int post_id @ '') was updated.''), 200),
                        post2 # rest))
               else
                 ((MessageMsg (''title of post ('' @ str_int post_id @ '') was updated.''), 200),
                  post1 # rest)))
      else
        (case update_loop post_id new_title new_content rest of
           (resp, rest') \<Rightarrow> (resp, post # rest')))"

definition update_post :: "int \<Rightarrow> string option \<Rightarrow> string option \<Rightarrow> post list \<Rightarrow> response \<times> post list" where
  "update_post post_id new_title new_content POSTS = update_loop post_id new_title new_content POSTS"

subsection \<open>\<^verbatim>\<open>search_post\<close>\<close>

text \<open>
  The loop carries \<^verbatim>\<open>search_lst\<close>. \<^verbatim>\<open>a in b\<close> on strings is the contiguous-substring
  test \<open>sublist\<close>; \<^verbatim>\<open>post not in search_lst\<close> compares dictionaries by value.
\<close>

fun search_loop ::
  "(string \<Rightarrow> string) \<Rightarrow> string option \<Rightarrow> string option \<Rightarrow> post list \<Rightarrow> post list \<Rightarrow> post list" where
  "search_loop lower title content [] search_lst = search_lst"
| "search_loop lower title content (post # rest) search_lst =
     (let search_lst1 =
            (if truthy title \<and> sublist (lower (the title)) (lower (p_title post))
             then search_lst @ [post] else search_lst);
          search_lst2 =
            (if truthy content \<and> sublist (lower (the content)) (lower (p_content post))
             then (if post \<notin> set search_lst1 then search_lst1 @ [post] else search_lst1)
             else search_lst1)
      in search_loop lower title content rest search_lst2)"

definition search_post ::
  "(string \<Rightarrow> string) \<Rightarrow> string option \<Rightarrow> string option \<Rightarrow> post list \<Rightarrow> response \<times> post list" where
  "search_post lower title content POSTS =
     (if \<not> truthy title \<and> \<not> truthy content then
        ((ErrorMsg ''Please provide title or content query'', 400), POSTS)
      else ((PostList (search_loop lower title content POSTS []), 200), POSTS))"

text \<open>
  The matching condition in the words of the specification, to compare \<^verbatim>\<open>search_post\<close>
  with: a post matches when the title query is provided (present and not empty) and is a
  case-insensitive substring of the post's title, or the content query is provided and is a
  case-insensitive substring of the post's content.
\<close>

definition search_matches ::
  "(string \<Rightarrow> string) \<Rightarrow> string option \<Rightarrow> string option \<Rightarrow> post \<Rightarrow> bool" where
  "search_matches lower title content post \<longleftrightarrow>
     (case title of None \<Rightarrow> False
      | Some t \<Rightarrow> t \<noteq> [] \<and> sublist (lower t) (lower (p_title post))) \<or>
     (case content of None \<Rightarrow> False
      | Some c \<Rightarrow> c \<noteq> [] \<and> sublist (lower c) (lower (p_content post)))"

section \<open>Creating a post\<close>

text \<open>
  C1: with a truthy title and a truthy content, \<^verbatim>\<open>add_post\<close> answers 201 with the new post,
  whose id is the number of posts before the call plus one, and the registry afterwards is
  the old one with the new post appended, hence one longer.
\<close>

theorem add_post_valid:
  assumes "truthy title" and "truthy content"
  shows "\<exists>t c new_post.
           title = Some t \<and> content = Some c \<and>
           new_post = \<lparr>p_id = int (length POSTS) + 1, p_title = t, p_content = c\<rparr> \<and>
           add_post title content POSTS = ((PostObj new_post, 201), POSTS @ [new_post]) \<and>
           length (snd (add_post title content POSTS)) = length POSTS + 1"
proof -
  from assms obtain t c where "title = Some t" "content = Some c"
    by (cases title; cases content) auto
  with assms show ?thesis
    by (simp add: add_post_def Let_def)
qed

theorem add_post_valid_witness:
  "add_post (Some ''Third'') (Some ''More text'') POSTS_seed =
     ((PostObj \<lparr>p_id = 3, p_title = ''Third'', p_content = ''More text''\<rparr>, 201),
      POSTS_seed @ [\<lparr>p_id = 3, p_title = ''Third'', p_content = ''More text''\<rparr>])"
  using add_post_valid [of "Some ''Third''" "Some ''More text''" POSTS_seed]
  by (simp add: POSTS_seed_def)

text \<open>
  C7: \<^verbatim>\<open>add_post\<close> answers 400 exactly when the title or the content is absent or the
  empty string, and then the answer is the missing-field error and the registry is the one
  it was called with.
\<close>

theorem add_post_missing_field:
  "(snd (fst (add_post title content POSTS)) = 400 \<longleftrightarrow>
      (title = None \<or> title = Some [] \<or> content = None \<or> content = Some [])) \<and>
   ((title = None \<or> title = Some [] \<or> content = None \<or> content = Some []) \<longrightarrow>
      add_post title content POSTS =
        ((ErrorMsg ''Please fill out required fields'', 400), POSTS))"
  by (cases title; cases content) (auto simp: add_post_def Let_def)

theorem add_post_missing_field_witness:
  "add_post (Some []) (Some ''text'') POSTS_seed =
     ((ErrorMsg ''Please fill out required fields'', 400), POSTS_seed) \<and>
   add_post (Some ''Title'') None POSTS_seed =
     ((ErrorMsg ''Please fill out required fields'', 400), POSTS_seed) \<and>
   snd (fst (add_post (Some ''Title'') (Some ''text'') POSTS_seed)) \<noteq> 400"
  using add_post_missing_field [of "Some []" "Some ''text''" POSTS_seed]
    add_post_missing_field [of "Some ''Title''" None POSTS_seed]
    add_post_missing_field [of "Some ''Title''" "Some ''text''" POSTS_seed]
  by simp

text \<open>
  C8: from the two seed posts, deleting post 1 and then creating a post gives the new post
  the id 2, which the surviving seed post already has: the ids were distinct before and are
  not afterwards.
\<close>

theorem delete_then_create_duplicate_id:
  "delete_post 1 POSTS_seed =
     ((SuccessMsg ''Post with id (1) has been deleted successfully.'', 200),
      [\<lparr>p_id = 2, p_title = ''Second post'', p_content = ''This is the second post.''\<rparr>]) \<and>
   add_post (Some ''Third post'') (Some ''This is the third post.'') (snd (delete_post 1 POSTS_seed)) =
     ((PostObj \<lparr>p_id = 2, p_title = ''Third post'', p_content = ''This is the third post.''\<rparr>, 201),
      [\<lparr>p_id = 2, p_title = ''Second post'', p_content = ''This is the second post.''\<rparr>,
       \<lparr>p_id = 2, p_title = ''Third post'', p_content = ''This is the third post.''\<rparr>]) \<and>
   distinct (map p_id POSTS_seed) \<and>
   \<not> distinct (map p_id
        (snd (add_post (Some ''Third post'') (Some ''This is the third post.'')
               (snd (delete_post 1 POSTS_seed)))))"
proof -
  have d: "delete_post 1 POSTS_seed =
     ((SuccessMsg ''Post with id (1) has been deleted successfully.'', 200),
      [\<lparr>p_id = 2, p_title = ''Second post'', p_content = ''This is the second post.''\<rparr>])"
    by code_simp
  show ?thesis
    unfolding d by (simp add: add_post_def POSTS_seed_def Let_def)
qed

theorem delete_then_create_duplicate_id_witness:
  "map p_id
     (snd (add_post (Some ''Third post'') (Some ''This is the third post.'')
            (snd (delete_post 1 POSTS_seed)))) = [2, 2]"
proof -
  have "add_post (Some ''Third post'') (Some ''This is the third post.'') (snd (delete_post 1 POSTS_seed)) =
     ((PostObj \<lparr>p_id = 2, p_title = ''Third post'', p_content = ''This is the third post.''\<rparr>, 201),
      [\<lparr>p_id = 2, p_title = ''Second post'', p_content = ''This is the second post.''\<rparr>,
       \<lparr>p_id = 2, p_title = ''Third post'', p_content = ''This is the third post.''\<rparr>])"
    using delete_then_create_duplicate_id by (rule conjunct1 [OF conjunct2])
  then show ?thesis by simp
qed

section \<open>Deleting a post\<close>

lemma delete_loop_no_match:
  "\<forall>p\<in>set rest. p_id p \<noteq> post_id \<Longrightarrow>
   delete_loop post_id POSTS rest =
     ((ErrorMsg (''Post with id ('' @ str_int post_id @ '') do not exist.''), 404), POSTS)"
  by (induction rest) auto

lemma delete_loop_match:
  assumes "POSTS = seen @ rest"
    and "\<forall>q\<in>set seen. p_id q \<noteq> post_id"
    and "\<exists>p\<in>set rest. p_id p = post_id"
  shows "\<exists>before post after.
           POSTS = before @ post # after \<and> (\<forall>q\<in>set before. p_id q \<noteq> post_id) \<and>
           p_id post = post_id \<and>
           delete_loop post_id POSTS rest =
             ((SuccessMsg (''Post with id ('' @ str_int post_id @ '') has been deleted successfully.''), 200),
              before @ after)"
  using assms
proof (induction rest arbitrary: seen)
  case Nil
  then show ?case by simp
next
  case (Cons post rest)
  show ?case
  proof (cases "p_id post = post_id")
    case True
    from Cons.prems(2) True have "post \<notin> set seen" by auto
    then have "remove1 post POSTS = seen @ rest"
      using Cons.prems(1) by (simp add: remove1_append)
    with True Cons.prems(1,2) show ?thesis
      by (intro exI [of _ seen] exI [of _ post] exI [of _ rest]) simp
  next
    case False
    have "POSTS = (seen @ [post]) @ rest" using Cons.prems(1) by simp
    moreover have "\<forall>q\<in>set (seen @ [post]). p_id q \<noteq> post_id"
      using Cons.prems(2) False by auto
    moreover have "\<exists>p\<in>set rest. p_id p = post_id"
      using Cons.prems(3) False by auto
    ultimately obtain before p after where
      "POSTS = before @ p # after" "\<forall>q\<in>set before. p_id q \<noteq> post_id" "p_id p = post_id"
      "delete_loop post_id POSTS rest =
             ((SuccessMsg (''Post with id ('' @ str_int post_id @ '') has been deleted successfully.''), 200),
              before @ after)"
      using Cons.IH [of "seen @ [post]"] by blast
    with False show ?thesis by auto
  qed
qed

text \<open>
  C4: when no post has the id, \<^verbatim>\<open>delete_post\<close> answers 404 with a message holding the
  id and the registry is unchanged; when some post has it, the registry splits at the first
  such post, the answer is 200 with a message holding the id, and the registry afterwards
  is the part before that post followed by the part after it.
\<close>

theorem delete_post_spec:
  "((\<forall>p\<in>set POSTS. p_id p \<noteq> post_id) \<longrightarrow>
      delete_post post_id POSTS =
        ((ErrorMsg (''Post with id ('' @ str_int post_id @ '') do not exist.''), 404), POSTS)) \<and>
   ((\<exists>p\<in>set POSTS. p_id p = post_id) \<longrightarrow>
      (\<exists>before post after.
         POSTS = before @ post # after \<and> (\<forall>q\<in>set before. p_id q \<noteq> post_id) \<and>
         p_id post = post_id \<and>
         delete_post post_id POSTS =
           ((SuccessMsg (''Post with id ('' @ str_int post_id @ '') has been deleted successfully.''), 200),
            before @ after))) \<and>
   sublist (str_int post_id) (''Post with id ('' @ str_int post_id @ '') do not exist.'') \<and>
   sublist (str_int post_id) (''Post with id ('' @ str_int post_id @ '') has been deleted successfully.'')"
proof (intro conjI impI)
  assume "\<forall>p\<in>set POSTS. p_id p \<noteq> post_id"
  then show "delete_post post_id POSTS =
        ((ErrorMsg (''Post with id ('' @ str_int post_id @ '') do not exist.''), 404), POSTS)"
    unfolding delete_post_def by (rule delete_loop_no_match)
next
  assume "\<exists>p\<in>set POSTS. p_id p = post_id"
  then show "\<exists>before post after.
         POSTS = before @ post # after \<and> (\<forall>q\<in>set before. p_id q \<noteq> post_id) \<and>
         p_id post = post_id \<and>
         delete_post post_id POSTS =
           ((SuccessMsg (''Post with id ('' @ str_int post_id @ '') has been deleted successfully.''), 200),
            before @ after)"
    unfolding delete_post_def using delete_loop_match [of POSTS "[]" POSTS post_id] by simp
next
  show "sublist (str_int post_id) (''Post with id ('' @ str_int post_id @ '') do not exist.'')"
    by (rule sublist_appendI)
next
  show "sublist (str_int post_id) (''Post with id ('' @ str_int post_id @ '') has been deleted successfully.'')"
    by (rule sublist_appendI)
qed

theorem delete_post_spec_witness:
  "7 \<notin> set (map p_id POSTS_seed) \<and>
   delete_post 7 POSTS_seed =
     ((ErrorMsg ''Post with id (7) do not exist.'', 404), POSTS_seed) \<and>
   (\<exists>p\<in>set POSTS_seed. p_id p = 1) \<and>
   delete_post 1 POSTS_seed =
     ((SuccessMsg ''Post with id (1) has been deleted successfully.'', 200),
      [\<lparr>p_id = 2, p_title = ''Second post'', p_content = ''This is the second post.''\<rparr>])"
proof -
  have a: "str_int 7 = ''7''" by code_simp
  have b: "delete_post 1 POSTS_seed =
     ((SuccessMsg ''Post with id (1) has been deleted successfully.'', 200),
      [\<lparr>p_id = 2, p_title = ''Second post'', p_content = ''This is the second post.''\<rparr>])"
    by code_simp
  have c: "\<forall>p\<in>set POSTS_seed. p_id p \<noteq> 7" "\<exists>p\<in>set POSTS_seed. p_id p = 1"
    by (simp_all add: POSTS_seed_def)
  from c(1) have "delete_post 7 POSTS_seed =
     ((ErrorMsg ''Post with id (7) do not exist.'', 404), POSTS_seed)"
    using delete_post_spec [of POSTS_seed 7] a by simp
  with b c(2) show ?thesis by (simp add: POSTS_seed_def)
qed

section \<open>The handlers that only read\<close>

text \<open>
  C9: \<^verbatim>\<open>get_posts\<close> and \<^verbatim>\<open>search_post\<close> return the registry they were called with,
  whatever the query parameters are.
\<close>

theorem read_handlers_keep_registry:
  "snd (get_posts lower sort_tag direction POSTS) = POSTS \<and>
   snd (search_post lower title content POSTS) = POSTS"
  by (simp add: get_posts_def search_post_def Let_def)

section \<open>Updating a post\<close>

lemma update_loop_no_match:
  "\<forall>p\<in>set POSTS. p_id p \<noteq> post_id \<Longrightarrow>
   update_loop post_id new_title new_content POSTS =
     ((ErrorMsg (''Post with id ('' @ str_int post_id @ '') do not exist.''), 404), POSTS)"
  by (induction POSTS) auto

lemma update_loop_skip:
  "\<forall>q\<in>set before. p_id q \<noteq> post_id \<Longrightarrow>
   update_loop post_id new_title new_content (before @ rest) =
     (fst (update_loop post_id new_title new_content rest),
      before @ snd (update_loop post_id new_title new_content rest))"
  by (induction before) (auto split: prod.splits)

lemma update_loop_hit_none:
  "p_id post = post_id \<Longrightarrow> \<not> truthy new_title \<Longrightarrow> \<not> truthy new_content \<Longrightarrow>
   update_loop post_id new_title new_content (post # rest) =
     ((ErrorMsg ''Bad request: Nothing was changed'', 400), post # rest)"
  by simp

lemma update_loop_hit_both:
  "p_id post = post_id \<Longrightarrow> t \<noteq> [] \<Longrightarrow> c \<noteq> [] \<Longrightarrow>
   update_loop post_id (Some t) (Some c) (post # rest) =
     ((MessageMsg (''title and content of post ('' @ str_int post_id @ '') was updated.''), 200),
      post\<lparr>p_title := t, p_content := c\<rparr> # rest)"
  by (simp add: Let_def)

lemma update_loop_hit_content:
  "p_id post = post_id \<Longrightarrow> \<not> truthy new_title \<Longrightarrow> c \<noteq> [] \<Longrightarrow>
   update_loop post_id new_title (Some c) (post # rest) =
     ((MessageMsg (''content of post ('' @ str_int post_id @ '') was updated.''), 200),
      post\<lparr>p_content := c\<rparr> # rest)"
  by (simp add: Let_def)

lemma update_loop_hit_title:
  "p_id post = post_id \<Longrightarrow> t \<noteq> [] \<Longrightarrow> \<not> truthy new_content \<Longrightarrow>
   update_loop post_id (Some t) new_content (post # rest) =
     ((MessageMsg (''title of post ('' @ str_int post_id @ '') was updated.''), 200),
      post\<lparr>p_title := t\<rparr> # rest)"
  by (simp add: Let_def)

text \<open>
  C6: \<^verbatim>\<open>update_post\<close> answers 400 exactly when some post has the id and neither the
  title nor the content of the body is truthy, and then it is the nothing-changed error and
  the registry is unchanged; it answers 404 exactly when no post has the id, whatever the
  body holds. The two outcomes exclude each other.
\<close>

theorem update_post_errors:
  "(snd (fst (update_post post_id new_title new_content POSTS)) = 400 \<longleftrightarrow>
      (\<exists>p\<in>set POSTS. p_id p = post_id) \<and> \<not> truthy new_title \<and> \<not> truthy new_content) \<and>
   ((\<exists>p\<in>set POSTS. p_id p = post_id) \<and> \<not> truthy new_title \<and> \<not> truthy new_content \<longrightarrow>
      update_post post_id new_title new_content POSTS =
        ((ErrorMsg ''Bad request: Nothing was changed'', 400), POSTS)) \<and>
   (snd (fst (update_post post_id new_title new_content POSTS)) = 404 \<longleftrightarrow>
      (\<forall>p\<in>set POSTS. p_id p \<noteq> post_id)) \<and>
   ((\<forall>p\<in>set POSTS. p_id p \<noteq> post_id) \<longrightarrow>
      update_post post_id new_title new_content POSTS =
        ((ErrorMsg (''Post with id ('' @ str_int post_id @ '') do not exist.''), 404), POSTS))"
proof (cases "\<exists>p\<in>set POSTS. p_id p = post_id")
  case False
  then have "update_post post_id new_title new_content POSTS =
        ((ErrorMsg (''Post with id ('' @ str_int post_id @ '') do not exist.''), 404), POSTS)"
    unfolding update_post_def by (intro update_loop_no_match) simp
  with False show ?thesis by simp
next
  case True
  then obtain before post after where
    split: "POSTS = before @ post # after" "p_id post = post_id"
      "\<forall>q\<in>set before. \<not> p_id q = post_id"
    using split_list_first_prop [of POSTS "\<lambda>p. p_id p = post_id"] by blast
  have skip: "update_post post_id new_title new_content POSTS =
     (fst (update_loop post_id new_title new_content (post # after)),
      before @ snd (update_loop post_id new_title new_content (post # after)))"
    unfolding update_post_def split(1) using split(3) by (intro update_loop_skip) simp
  show ?thesis
  proof (cases "\<not> truthy new_title \<and> \<not> truthy new_content")
    case none: True
    then have "update_post post_id new_title new_content POSTS =
        ((ErrorMsg ''Bad request: Nothing was changed'', 400), POSTS)"
      unfolding skip using split(1,2) by simp
    with True none show ?thesis by auto
  next
    case some: False
    have "snd (fst (update_loop post_id new_title new_content (post # after))) = 200"
      using some split(2) by (simp add: Let_def)
    then have "snd (fst (update_post post_id new_title new_content POSTS)) = 200"
      unfolding skip by simp
    with True some show ?thesis by auto
  qed
qed

theorem update_post_errors_witness:
  "update_post 2 None (Some []) POSTS_seed =
     ((ErrorMsg ''Bad request: Nothing was changed'', 400), POSTS_seed) \<and>
   update_post 7 None (Some []) POSTS_seed =
     ((ErrorMsg ''Post with id (7) do not exist.'', 404), POSTS_seed) \<and>
   update_post 7 (Some ''New title'') None POSTS_seed =
     ((ErrorMsg ''Post with id (7) do not exist.'', 404), POSTS_seed)"
proof -
  have s: "str_int 7 = ''7''" by code_simp
  show ?thesis
    using update_post_errors [of 2 None "Some []" POSTS_seed]
      update_post_errors [of 7 None "Some []" POSTS_seed]
      update_post_errors [of 7 "Some ''New title''" None POSTS_seed] s
    by (simp add: POSTS_seed_def)
qed

lemma first_split_unique:
  assumes "b1 @ p1 # a1 = b2 @ p2 # a2"
    and "P p1" and "P p2"
    and "\<forall>q\<in>set b1. \<not> P q" and "\<forall>q\<in>set b2. \<not> P q"
  shows "b1 = b2 \<and> p1 = p2 \<and> a1 = a2"
  using assms
proof (induction b1 arbitrary: b2)
  case Nil
  then show ?case by (cases b2) auto
next
  case (Cons x b1)
  then show ?case by (cases b2) auto
qed

text \<open>
  C5: when some post has the id, the registry splits at the first such post, and with a
  truthy field in the body \<^verbatim>\<open>update_post\<close> answers 200 and overwrites in that post
  exactly the truthy fields: both, with the message naming title and content; the content
  alone (title kept), with the message naming content; the title alone (content kept), with
  the message naming title. The posts before and after it are as they were.
\<close>

theorem update_post_fields:
  assumes "\<exists>p\<in>set POSTS. p_id p = post_id"
  shows "\<exists>before post after.
           POSTS = before @ post # after \<and> (\<forall>q\<in>set before. p_id q \<noteq> post_id) \<and>
           p_id post = post_id \<and>
           (t \<noteq> [] \<and> c \<noteq> [] \<longrightarrow>
              update_post post_id (Some t) (Some c) POSTS =
                ((MessageMsg (''title and content of post ('' @ str_int post_id @ '') was updated.''), 200),
                 before @ post\<lparr>p_title := t, p_content := c\<rparr> # after)) \<and>
           (\<not> truthy no_title \<and> c \<noteq> [] \<longrightarrow>
              update_post post_id no_title (Some c) POSTS =
                ((MessageMsg (''content of post ('' @ str_int post_id @ '') was updated.''), 200),
                 before @ post\<lparr>p_content := c\<rparr> # after)) \<and>
           (t \<noteq> [] \<and> \<not> truthy no_content \<longrightarrow>
              update_post post_id (Some t) no_content POSTS =
                ((MessageMsg (''title of post ('' @ str_int post_id @ '') was updated.''), 200),
                 before @ post\<lparr>p_title := t\<rparr> # after))"
proof -
  from assms obtain before post after where
    split: "POSTS = before @ post # after" "p_id post = post_id"
      "\<forall>q\<in>set before. \<not> p_id q = post_id"
    using split_list_first_prop [of POSTS "\<lambda>p. p_id p = post_id"] by blast
  show ?thesis
  proof (rule exI [of _ before], rule exI [of _ post], rule exI [of _ after], intro conjI impI)
    show "POSTS = before @ post # after" by (rule split(1))
    show "\<forall>q\<in>set before. p_id q \<noteq> post_id" using split(3) by simp
    show "p_id post = post_id" by (rule split(2))
  next
    assume "t \<noteq> [] \<and> c \<noteq> []"
    then show "update_post post_id (Some t) (Some c) POSTS =
                ((MessageMsg (''title and content of post ('' @ str_int post_id @ '') was updated.''), 200),
                 before @ post\<lparr>p_title := t, p_content := c\<rparr> # after)"
      unfolding update_post_def split(1)
      using split(2,3) by (simp only: update_loop_skip update_loop_hit_both fst_conv snd_conv simp_thms)
  next
    assume "\<not> truthy no_title \<and> c \<noteq> []"
    then show "update_post post_id no_title (Some c) POSTS =
                ((MessageMsg (''content of post ('' @ str_int post_id @ '') was updated.''), 200),
                 before @ post\<lparr>p_content := c\<rparr> # after)"
      unfolding update_post_def split(1)
      using split(2,3) by (simp only: update_loop_skip update_loop_hit_content fst_conv snd_conv simp_thms)
  next
    assume "t \<noteq> [] \<and> \<not> truthy no_content"
    then show "update_post post_id (Some t) no_content POSTS =
                ((MessageMsg (''title of post ('' @ str_int post_id @ '') was updated.''), 200),
                 before @ post\<lparr>p_title := t\<rparr> # after)"
      unfolding update_post_def split(1)
      using split(2,3) by (simp only: update_loop_skip update_loop_hit_title fst_conv snd_conv simp_thms)
  qed
qed

theorem update_post_fields_witness:
  "(\<exists>p\<in>set POSTS_seed. p_id p = 2) \<and>
   update_post 2 None (Some ''New text'') POSTS_seed =
     ((MessageMsg ''content of post (2) was updated.'', 200),
      [\<lparr>p_id = 1, p_title = ''First post'', p_content = ''This is the first post.''\<rparr>,
       \<lparr>p_id = 2, p_title = ''Second post'', p_content = ''New text''\<rparr>]) \<and>
   update_post 2 (Some ''New title'') (Some ''New text'') POSTS_seed =
     ((MessageMsg ''title and content of post (2) was updated.'', 200),
      [\<lparr>p_id = 1, p_title = ''First post'', p_content = ''This is the first post.''\<rparr>,
       \<lparr>p_id = 2, p_title = ''New title'', p_content = ''New text''\<rparr>])"
proof -
  define s1 where "s1 = \<lparr>p_id = 1, p_title = ''First post'', p_content = ''This is the first post.''\<rparr>"
  define s2 where "s2 = \<lparr>p_id = 2, p_title = ''Second post'', p_content = ''This is the second post.''\<rparr>"
  have seed: "POSTS_seed = [s1] @ s2 # []"
    by (simp add: POSTS_seed_def s1_def s2_def)
  have ids: "p_id s2 = 2" "\<forall>q\<in>set [s1]. \<not> p_id q = 2"
    by (simp_all add: s1_def s2_def)
  have m: "\<exists>p\<in>set POSTS_seed. p_id p = 2"
    unfolding seed using ids(1) by simp
  have s: "str_int 2 = ''2''" by code_simp
  from update_post_fields [OF m, of "''New title''" "''New text''" None None]
  obtain before post after where
    split: "POSTS_seed = before @ post # after" "\<forall>q\<in>set before. p_id q \<noteq> 2" "p_id post = 2"
    and r1: "\<not> truthy None \<and> ''New text'' \<noteq> [] \<longrightarrow>
              update_post 2 None (Some ''New text'') POSTS_seed =
                ((MessageMsg (''content of post ('' @ str_int 2 @ '') was updated.''), 200),
                 before @ post\<lparr>p_content := ''New text''\<rparr> # after)"
    and r2: "''New title'' \<noteq> [] \<and> ''New text'' \<noteq> [] \<longrightarrow>
              update_post 2 (Some ''New title'') (Some ''New text'') POSTS_seed =
                ((MessageMsg (''title and content of post ('' @ str_int 2 @ '') was updated.''), 200),
                 before @ post\<lparr>p_title := ''New title'', p_content := ''New text''\<rparr> # after)"
    by (elim exE conjE)
  from split(2) have nb: "\<forall>q\<in>set before. \<not> p_id q = 2" by simp
  have "[s1] @ s2 # [] = before @ post # after"
    using split(1) unfolding seed .
  from first_split_unique [OF this ids(1) split(3) ids(2) nb]
  have u: "before = [s1]" "post = s2" "after = []" by simp_all
  have "update_post 2 None (Some ''New text'') POSTS_seed =
                ((MessageMsg (''content of post ('' @ ''2'' @ '') was updated.''), 200),
                 [s1] @ s2\<lparr>p_content := ''New text''\<rparr> # [])"
    using r1 unfolding u s by simp
  moreover have "update_post 2 (Some ''New title'') (Some ''New text'') POSTS_seed =
                ((MessageMsg (''title and content of post ('' @ ''2'' @ '') was updated.''), 200),
                 [s1] @ s2\<lparr>p_title := ''New title'', p_content := ''New text''\<rparr> # [])"
    using r2 unfolding u s by simp
  ultimately show ?thesis using m by (simp add: s1_def s2_def)
qed

lemma update_loop_hit_snd:
  "p_id post = post_id \<Longrightarrow>
   \<exists>t c. snd (update_loop post_id new_title new_content (post # after)) =
           post\<lparr>p_title := t, p_content := c\<rparr> # after"
proof (cases "truthy new_title"; cases "truthy new_content")
  assume "p_id post = post_id" "truthy new_title" "truthy new_content"
  then have "snd (update_loop post_id new_title new_content (post # after)) =
           post\<lparr>p_title := the new_title, p_content := the new_content\<rparr> # after"
    by (simp add: Let_def)
  then show ?thesis by blast
next
  assume "p_id post = post_id" "truthy new_title" "\<not> truthy new_content"
  then have "snd (update_loop post_id new_title new_content (post # after)) =
           post\<lparr>p_title := the new_title, p_content := p_content post\<rparr> # after"
    by (simp add: Let_def)
  then show ?thesis by blast
next
  assume "p_id post = post_id" "\<not> truthy new_title" "truthy new_content"
  then have "snd (update_loop post_id new_title new_content (post # after)) =
           post\<lparr>p_title := p_title post, p_content := the new_content\<rparr> # after"
    by (simp add: Let_def)
  then show ?thesis by blast
next
  assume "p_id post = post_id" "\<not> truthy new_title" "\<not> truthy new_content"
  then have "snd (update_loop post_id new_title new_content (post # after)) =
           post\<lparr>p_title := p_title post, p_content := p_content post\<rparr> # after"
    by simp
  then show ?thesis by blast
qed

lemma update_loop_shape:
  "snd (update_loop post_id new_title new_content POSTS) = POSTS \<or>
   (\<exists>before post after t c.
      POSTS = before @ post # after \<and> (\<forall>q\<in>set before. p_id q \<noteq> post_id) \<and>
      p_id post = post_id \<and>
      snd (update_loop post_id new_title new_content POSTS) =
        before @ post\<lparr>p_title := t, p_content := c\<rparr> # after)"
proof (cases "\<exists>p\<in>set POSTS. p_id p = post_id")
  case False
  then have "\<forall>p\<in>set POSTS. p_id p \<noteq> post_id" by simp
  then show ?thesis by (simp only: update_loop_no_match snd_conv simp_thms)
next
  case True
  then obtain before post after where
    split: "POSTS = before @ post # after" "p_id post = post_id"
      "\<forall>q\<in>set before. \<not> p_id q = post_id"
    using split_list_first_prop [of POSTS "\<lambda>p. p_id p = post_id"] by blast
  from split(3) have nb: "\<forall>q\<in>set before. p_id q \<noteq> post_id" by simp
  have skip: "snd (update_loop post_id new_title new_content POSTS) =
      before @ snd (update_loop post_id new_title new_content (post # after))"
    unfolding split(1) by (simp only: update_loop_skip [OF nb] snd_conv)
  obtain t c where
    "snd (update_loop post_id new_title new_content (post # after)) =
       post\<lparr>p_title := t, p_content := c\<rparr> # after"
    using update_loop_hit_snd [OF split(2)] by blast
  with skip have "snd (update_loop post_id new_title new_content POSTS) =
        before @ post\<lparr>p_title := t, p_content := c\<rparr> # after" by simp
  with split(1,2) nb show ?thesis by blast
qed

lemma nth_mid_replaced:
  "(before @ y # after) ! i = (if i = length before then y else (before @ x # after) ! i)"
  by (simp add: nth_append nth_Cons')

lemma nth_mid: "(before @ x # after) ! length before = x"
  by simp

lemma post_update_same: "p = p\<lparr>p_title := p_title p, p_content := p_content p\<rparr>"
  by simp

text \<open>
  C10: \<^verbatim>\<open>update_post\<close> keeps the length of the registry and the ids in their order; a
  position whose post differs afterwards holds the first post with the id; and at every
  position the post afterwards is the post before with at most its title and its content
  replaced.
\<close>

theorem update_post_frame:
  "length (snd (update_post post_id new_title new_content POSTS)) = length POSTS \<and>
   map p_id (snd (update_post post_id new_title new_content POSTS)) = map p_id POSTS \<and>
   (\<forall>i<length POSTS.
      snd (update_post post_id new_title new_content POSTS) ! i \<noteq> POSTS ! i \<longrightarrow>
        p_id (POSTS ! i) = post_id \<and> (\<forall>j<i. p_id (POSTS ! j) \<noteq> post_id)) \<and>
   (\<forall>i<length POSTS. \<exists>t c.
      snd (update_post post_id new_title new_content POSTS) ! i =
        (POSTS ! i)\<lparr>p_title := t, p_content := c\<rparr>)"
proof -
  define POSTS' where "POSTS' = snd (update_loop post_id new_title new_content POSTS)"
  have same: "\<exists>t c. p = p\<lparr>p_title := t, p_content := c\<rparr>" for p :: post
    using post_update_same [of p] by blast
  have shape: "POSTS' = POSTS \<or>
   (\<exists>before post after t c.
      POSTS = before @ post # after \<and> (\<forall>q\<in>set before. p_id q \<noteq> post_id) \<and>
      p_id post = post_id \<and>
      POSTS' = before @ post\<lparr>p_title := t, p_content := c\<rparr> # after)"
    unfolding POSTS'_def by (rule update_loop_shape)
  have "length POSTS' = length POSTS \<and> map p_id POSTS' = map p_id POSTS \<and>
     (\<forall>i<length POSTS. POSTS' ! i \<noteq> POSTS ! i \<longrightarrow>
        p_id (POSTS ! i) = post_id \<and> (\<forall>j<i. p_id (POSTS ! j) \<noteq> post_id)) \<and>
     (\<forall>i<length POSTS. \<exists>t c. POSTS' ! i = (POSTS ! i)\<lparr>p_title := t, p_content := c\<rparr>)"
  proof (cases "POSTS' = POSTS")
    case True
    then show ?thesis using same by simp
  next
    case False
    with shape obtain before post after t c where
      P: "POSTS = before @ post # after" and nb: "\<forall>q\<in>set before. p_id q \<noteq> post_id"
      and hit: "p_id post = post_id"
      and P': "POSTS' = before @ post\<lparr>p_title := t, p_content := c\<rparr> # after"
      by blast
    have len: "length POSTS' = length POSTS"
      unfolding P P' by simp
    have ids: "map p_id POSTS' = map p_id POSTS"
      unfolding P P' by simp
    have nth': "POSTS' ! i = (if i = length before then post\<lparr>p_title := t, p_content := c\<rparr> else POSTS ! i)" for i
      unfolding P P' by (rule nth_mid_replaced)
    have at: "POSTS ! length before = post"
      unfolding P by (rule nth_mid)
    have early: "p_id (POSTS ! j) \<noteq> post_id" if "j < length before" for j
    proof -
      have "POSTS ! j = before ! j" unfolding P using that by (simp add: nth_append)
      moreover have "before ! j \<in> set before" using that by simp
      ultimately show ?thesis using nb by simp
    qed
    have diff: "\<forall>i<length POSTS. POSTS' ! i \<noteq> POSTS ! i \<longrightarrow>
        p_id (POSTS ! i) = post_id \<and> (\<forall>j<i. p_id (POSTS ! j) \<noteq> post_id)"
    proof (intro allI impI)
      fix i assume "i < length POSTS" "POSTS' ! i \<noteq> POSTS ! i"
      then have "i = length before" using nth' [of i] by (simp split: if_splits)
      then show "p_id (POSTS ! i) = post_id \<and> (\<forall>j<i. p_id (POSTS ! j) \<noteq> post_id)"
        using at hit early by simp
    qed
    have upd: "\<forall>i<length POSTS. \<exists>t c. POSTS' ! i = (POSTS ! i)\<lparr>p_title := t, p_content := c\<rparr>"
    proof (intro allI impI)
      fix i assume "i < length POSTS"
      show "\<exists>t c. POSTS' ! i = (POSTS ! i)\<lparr>p_title := t, p_content := c\<rparr>"
      proof (cases "i = length before")
        case True
        then have "POSTS' ! i = (POSTS ! i)\<lparr>p_title := t, p_content := c\<rparr>"
          using nth' [of i] at by simp
        then show ?thesis by blast
      next
        case False
        then have "POSTS' ! i = POSTS ! i" using nth' [of i] by simp
        then show ?thesis using same [of "POSTS ! i"] by simp
      qed
    qed
    from len ids diff upd show ?thesis by (intro conjI)
  qed
  then show ?thesis unfolding POSTS'_def update_post_def .
qed

theorem update_post_frame_witness:
  "length (snd (update_post 2 (Some ''New title'') None POSTS_seed)) = 2 \<and>
   map p_id (snd (update_post 2 (Some ''New title'') None POSTS_seed)) = [1, 2] \<and>
   snd (update_post 2 (Some ''New title'') None POSTS_seed) ! 0 = POSTS_seed ! 0"
proof -
  note f = update_post_frame [of 2 "Some ''New title''" None POSTS_seed]
  from f have len: "length (snd (update_post 2 (Some ''New title'') None POSTS_seed)) = length POSTS_seed"
    by (rule conjunct1)
  from f have ids: "map p_id (snd (update_post 2 (Some ''New title'') None POSTS_seed)) = map p_id POSTS_seed"
    by (rule conjunct1 [OF conjunct2])
  from f have diff: "\<forall>i<length POSTS_seed.
      snd (update_post 2 (Some ''New title'') None POSTS_seed) ! i \<noteq> POSTS_seed ! i \<longrightarrow>
        p_id (POSTS_seed ! i) = 2 \<and> (\<forall>j<i. p_id (POSTS_seed ! j) \<noteq> 2)"
    by (rule conjunct1 [OF conjunct2 [OF conjunct2]])
  have l: "(0::nat) < length POSTS_seed" and i: "p_id (POSTS_seed ! 0) \<noteq> 2"
    by (simp_all add: POSTS_seed_def)
  have "snd (update_post 2 (Some ''New title'') None POSTS_seed) ! 0 = POSTS_seed ! 0"
  proof (rule ccontr)
    assume "snd (update_post 2 (Some ''New title'') None POSTS_seed) ! 0 \<noteq> POSTS_seed ! 0"
    with diff [rule_format, OF l] have "p_id (POSTS_seed ! 0) = 2" by simp
    with i show False by simp
  qed
  moreover have "length POSTS_seed = 2" "map p_id POSTS_seed = [1, 2]"
    by (simp_all add: POSTS_seed_def)
  ultimately show ?thesis using len ids by simp
qed

section \<open>Listing posts\<close>

lemma sorted_py_mset: "mset (sorted_py key reverse xs) = mset xs"
  by (simp add: sorted_py_def)

lemma sorted_py_ascending: "sorted (map key (sorted_py key False xs))"
  by (simp add: sorted_py_def)

lemma sorted_py_descending: "sorted (rev (map key (sorted_py key True xs)))"
  by (simp add: sorted_py_def rev_map)

lemma sorted_py_stable:
  "filter (\<lambda>x. key x = k) (sorted_py key reverse xs) = filter (\<lambda>x. key x = k) xs"
proof (cases reverse)
  case False
  then show ?thesis by (simp add: sorted_py_def sort_key_stable)
next
  case True
  have "filter (\<lambda>x. key x = k) (rev (sort_key key (rev xs))) =
        rev (filter (\<lambda>x. key x = k) (sort_key key (rev xs)))"
    by (simp only: rev_filter)
  also have "\<dots> = rev (filter (\<lambda>x. key x = k) (rev xs))"
    by (simp only: sort_key_stable)
  also have "\<dots> = filter (\<lambda>x. key x = k) xs"
    by (simp only: rev_filter rev_rev_ident)
  finally show ?thesis using True by (simp add: sorted_py_def)
qed

lemma desc_flag:
  assumes "lower ''asc'' \<noteq> ''desc''"
  shows "(lower (case direction of None \<Rightarrow> ''asc'' | Some d \<Rightarrow> d) = ''desc'') =
         (\<exists>d. direction = Some d \<and> lower d = ''desc'')"
  using assms by (cases direction) simp_all

text \<open>
  C2: \<^verbatim>\<open>get_posts\<close> always answers 200 with a list that holds the posts of the registry
  (as a multiset). With \<^verbatim>\<open>sort=title\<close> the lower-cased titles of the list are in
  descending order when the direction is given and lower-cases to \<^verbatim>\<open>desc\<close>, and in
  ascending order otherwise (direction absent or any other value); the sort is stable: the
  posts with the same lower-cased title are in their registry order. The same holds for
  \<^verbatim>\<open>sort=content\<close> with the lower-cased contents. With any other value of \<^verbatim>\<open>sort\<close>, or
  none, the list is the registry in its own order. Lower-casing is the parameter \<open>lower\<close>:
  the statement holds whatever \<^verbatim>\<open>str.lower\<close> does to a string, as long as it does not turn
  the default direction \<^verbatim>\<open>asc\<close> into \<^verbatim>\<open>desc\<close>.
\<close>

theorem get_posts_sorted:
  assumes "lower ''asc'' \<noteq> ''desc''"
  shows "\<exists>posts.
     fst (get_posts lower sort_tag direction POSTS) = (PostList posts, 200) \<and>
     mset posts = mset POSTS \<and>
     (sort_tag = Some ''title'' \<longrightarrow>
        (if \<exists>d. direction = Some d \<and> lower d = ''desc''
         then sorted (rev (map (\<lambda>p. lower (p_title p)) posts))
         else sorted (map (\<lambda>p. lower (p_title p)) posts)) \<and>
        (\<forall>k. filter (\<lambda>p. lower (p_title p) = k) posts =
              filter (\<lambda>p. lower (p_title p) = k) POSTS)) \<and>
     (sort_tag = Some ''content'' \<longrightarrow>
        (if \<exists>d. direction = Some d \<and> lower d = ''desc''
         then sorted (rev (map (\<lambda>p. lower (p_content p)) posts))
         else sorted (map (\<lambda>p. lower (p_content p)) posts)) \<and>
        (\<forall>k. filter (\<lambda>p. lower (p_content p) = k) posts =
              filter (\<lambda>p. lower (p_content p) = k) POSTS)) \<and>
     (sort_tag \<noteq> Some ''title'' \<and> sort_tag \<noteq> Some ''content'' \<longrightarrow> posts = POSTS)"
proof -
  define desc where "desc = (\<exists>d. direction = Some d \<and> lower d = ''desc'')"
  have flag: "(lower (case direction of None \<Rightarrow> ''asc'' | Some d \<Rightarrow> d) = ''desc'') = desc"
    unfolding desc_def using assms by (rule desc_flag)
  have tc: "Some ''title'' \<noteq> Some ''content''" by simp
  have key_t: "get_title lower = (\<lambda>p. lower (p_title p))"
    and key_c: "get_content lower = (\<lambda>p. lower (p_content p))"
    by (simp_all add: fun_eq_iff get_title_def get_content_def)
  consider (title) "sort_tag = Some ''title''" | (content) "sort_tag = Some ''content''"
    | (other) "sort_tag \<noteq> Some ''title''" "sort_tag \<noteq> Some ''content''"
    by blast
  then have "\<exists>posts.
     fst (get_posts lower sort_tag direction POSTS) = (PostList posts, 200) \<and>
     mset posts = mset POSTS \<and>
     (sort_tag = Some ''title'' \<longrightarrow>
        (if desc
         then sorted (rev (map (\<lambda>p. lower (p_title p)) posts))
         else sorted (map (\<lambda>p. lower (p_title p)) posts)) \<and>
        (\<forall>k. filter (\<lambda>p. lower (p_title p) = k) posts =
              filter (\<lambda>p. lower (p_title p) = k) POSTS)) \<and>
     (sort_tag = Some ''content'' \<longrightarrow>
        (if desc
         then sorted (rev (map (\<lambda>p. lower (p_content p)) posts))
         else sorted (map (\<lambda>p. lower (p_content p)) posts)) \<and>
        (\<forall>k. filter (\<lambda>p. lower (p_content p) = k) posts =
              filter (\<lambda>p. lower (p_content p) = k) POSTS)) \<and>
     (sort_tag \<noteq> Some ''title'' \<and> sort_tag \<noteq> Some ''content'' \<longrightarrow> posts = POSTS)"
  proof cases
    case title
    have r: "fst (get_posts lower sort_tag direction POSTS) =
        (PostList (sorted_py (\<lambda>p. lower (p_title p)) desc POSTS), 200)"
      unfolding get_posts_def Let_def flag key_t using title by simp
    have s: "if desc
         then sorted (rev (map (\<lambda>p. lower (p_title p)) (sorted_py (\<lambda>p. lower (p_title p)) desc POSTS)))
         else sorted (map (\<lambda>p. lower (p_title p)) (sorted_py (\<lambda>p. lower (p_title p)) desc POSTS))"
      using sorted_py_ascending [of "\<lambda>p. lower (p_title p)" POSTS]
        sorted_py_descending [of "\<lambda>p. lower (p_title p)" POSTS]
      by (cases desc) simp_all
    show ?thesis
      apply (rule exI [of _ "sorted_py (\<lambda>p. lower (p_title p)) desc POSTS"])
      using r s title tc
        sorted_py_mset [of "\<lambda>p. lower (p_title p)" desc POSTS]
        sorted_py_stable [of "\<lambda>p. lower (p_title p)" _ desc POSTS]
      by simp
  next
    case content
    have r: "fst (get_posts lower sort_tag direction POSTS) =
        (PostList (sorted_py (\<lambda>p. lower (p_content p)) desc POSTS), 200)"
      unfolding get_posts_def Let_def flag key_c using content by simp
    have s: "if desc
         then sorted (rev (map (\<lambda>p. lower (p_content p)) (sorted_py (\<lambda>p. lower (p_content p)) desc POSTS)))
         else sorted (map (\<lambda>p. lower (p_content p)) (sorted_py (\<lambda>p. lower (p_content p)) desc POSTS))"
      using sorted_py_ascending [of "\<lambda>p. lower (p_content p)" POSTS]
        sorted_py_descending [of "\<lambda>p. lower (p_content p)" POSTS]
      by (cases desc) simp_all
    show ?thesis
      apply (rule exI [of _ "sorted_py (\<lambda>p. lower (p_content p)) desc POSTS"])
      using r s content tc
        sorted_py_mset [of "\<lambda>p. lower (p_content p)" desc POSTS]
        sorted_py_stable [of "\<lambda>p. lower (p_content p)" _ desc POSTS]
      by simp
  next
    case other
    then have "fst (get_posts lower sort_tag direction POSTS) = (PostList POSTS, 200)"
      unfolding get_posts_def Let_def by simp
    with other show ?thesis by simp
  qed
  then show ?thesis unfolding desc_def .
qed

theorem get_posts_sorted_witness:
  "ascii_lower ''asc'' \<noteq> ''desc'' \<and>
   fst (get_posts ascii_lower (Some ''title'') (Some ''DESC'') POSTS_seed) =
     (PostList
        [\<lparr>p_id = 2, p_title = ''Second post'', p_content = ''This is the second post.''\<rparr>,
         \<lparr>p_id = 1, p_title = ''First post'', p_content = ''This is the first post.''\<rparr>], 200) \<and>
   sorted (rev (map (\<lambda>p. ascii_lower (p_title p))
        [\<lparr>p_id = 2, p_title = ''Second post'', p_content = ''This is the second post.''\<rparr>,
         \<lparr>p_id = 1, p_title = ''First post'', p_content = ''This is the first post.''\<rparr>])) \<and>
   mset [\<lparr>p_id = 2, p_title = ''Second post'', p_content = ''This is the second post.''\<rparr>,
         \<lparr>p_id = 1, p_title = ''First post'', p_content = ''This is the first post.''\<rparr>] =
     mset POSTS_seed"
proof -
  have asc: "ascii_lower ''asc'' \<noteq> ''desc''"
    by (simp add: ascii_lower_def ascii_lower_char_def)
  have e: "fst (get_posts ascii_lower (Some ''title'') (Some ''DESC'') POSTS_seed) =
     (PostList
        [\<lparr>p_id = 2, p_title = ''Second post'', p_content = ''This is the second post.''\<rparr>,
         \<lparr>p_id = 1, p_title = ''First post'', p_content = ''This is the first post.''\<rparr>], 200)"
    by code_simp
  have l: "ascii_lower ''DESC'' = ''desc''" by code_simp
  have d: "\<exists>d. Some ''DESC'' = Some d \<and> ascii_lower d = ''desc''"
    using l by simp
  from get_posts_sorted [of ascii_lower "Some ''title''" "Some ''DESC''" POSTS_seed, OF asc]
  obtain posts where
    p: "fst (get_posts ascii_lower (Some ''title'') (Some ''DESC'') POSTS_seed) = (PostList posts, 200)"
      "mset posts = mset POSTS_seed"
    and t: "Some ''title'' = Some ''title'' \<longrightarrow>
        (if \<exists>d. Some ''DESC'' = Some d \<and> ascii_lower d = ''desc''
         then sorted (rev (map (\<lambda>p. ascii_lower (p_title p)) posts))
         else sorted (map (\<lambda>p. ascii_lower (p_title p)) posts)) \<and>
        (\<forall>k. filter (\<lambda>p. ascii_lower (p_title p) = k) posts =
              filter (\<lambda>p. ascii_lower (p_title p) = k) POSTS_seed)"
    by (elim exE conjE)
  from t have "if \<exists>d. Some ''DESC'' = Some d \<and> ascii_lower d = ''desc''
         then sorted (rev (map (\<lambda>p. ascii_lower (p_title p)) posts))
         else sorted (map (\<lambda>p. ascii_lower (p_title p)) posts)"
    by (rule conjunct1 [OF mp]) (rule refl)
  with d have srt: "sorted (rev (map (\<lambda>p. ascii_lower (p_title p)) posts))"
    by (simp only: if_True)
  from p(1) e have "posts =
        [\<lparr>p_id = 2, p_title = ''Second post'', p_content = ''This is the second post.''\<rparr>,
         \<lparr>p_id = 1, p_title = ''First post'', p_content = ''This is the first post.''\<rparr>]"
    by simp
  with asc e srt p(2) show ?thesis by simp
qed

section \<open>Searching posts\<close>

lemma search_matches_code:
  "search_matches lower title content post \<longleftrightarrow>
     (truthy title \<and> sublist (lower (the title)) (lower (p_title post))) \<or>
     (truthy content \<and> sublist (lower (the content)) (lower (p_content post)))"
  by (cases title; cases content) (simp_all add: search_matches_def)

text \<open>
  Where the search is the filter of the registry by the matching condition: for a query by
  title alone on every registry, since the title branch appends without a test; and for
  every query on a registry that holds no two equal posts.
\<close>

lemma search_loop_title_only:
  "\<not> truthy content \<Longrightarrow>
   search_loop lower title content rest search_lst =
     search_lst @ filter (search_matches lower title content) rest"
  by (induction rest arbitrary: search_lst) (simp_all add: search_matches_code Let_def)

lemma search_loop_distinct:
  "distinct rest \<Longrightarrow> set rest \<inter> set search_lst = {} \<Longrightarrow>
   search_loop lower title content rest search_lst =
     search_lst @ filter (search_matches lower title content) rest"
proof (induction rest arbitrary: search_lst)
  case Nil
  then show ?case by simp
next
  case (Cons post rest)
  define m1 where "m1 = (truthy title \<and> sublist (lower (the title)) (lower (p_title post)))"
  define m2 where "m2 = (truthy content \<and> sublist (lower (the content)) (lower (p_content post)))"
  have m: "search_matches lower title content post = (m1 \<or> m2)"
    unfolding m1_def m2_def by (rule search_matches_code)
  have fresh: "post \<notin> set search_lst" "post \<notin> set rest" "distinct rest"
    using Cons.prems by auto
  define next_lst where "next_lst = (if m1 \<or> m2 then search_lst @ [post] else search_lst)"
  have step: "search_loop lower title content (post # rest) search_lst =
      search_loop lower title content rest next_lst"
    using fresh(1) unfolding next_lst_def m1_def m2_def by (simp add: Let_def)
  have "set rest \<inter> set next_lst = {}"
    using Cons.prems(2) fresh(2) unfolding next_lst_def by auto
  then have "search_loop lower title content rest next_lst =
      next_lst @ filter (search_matches lower title content) rest"
    using fresh(3) by (intro Cons.IH)
  then show ?case
    unfolding step next_lst_def using m by simp
qed

lemma search_post_status:
  "(snd (fst (search_post lower title content POSTS)) = 400 \<longleftrightarrow>
      \<not> truthy title \<and> \<not> truthy content) \<and>
   (snd (fst (search_post lower title content POSTS)) = 200 \<longleftrightarrow>
      truthy title \<or> truthy content)"
  by (simp add: search_post_def)

lemma search_post_title_only:
  assumes "truthy title" and "\<not> truthy content"
  shows "fst (search_post lower title content POSTS) =
           (PostList (filter (search_matches lower title content) POSTS), 200)"
  using assms search_loop_title_only [of content lower title POSTS "[]"]
  by (simp add: search_post_def)

lemma search_post_no_equal_posts:
  assumes "truthy title \<or> truthy content" and "distinct POSTS"
  shows "fst (search_post lower title content POSTS) =
           (PostList (filter (search_matches lower title content) POSTS), 200)"
  using assms search_loop_distinct [of POSTS "[]" lower title content]
  by (auto simp add: search_post_def)

text \<open>
  C3 fails on the code. Deleting post 1 from the seed and creating a post with the title and
  the content of post 2 leaves two equal posts with id 2 in the registry. Searching by
  content for the content of that post, both posts match, and \<^verbatim>\<open>search_post\<close> returns one of
  them: \<^verbatim>\<open>post not in search_lst\<close> compares by value, so the second post is taken to be in
  the list already. Searching the same registry by title for the title of that post returns
  both. The strings compared are equal, so this holds whatever \<^verbatim>\<open>str.lower\<close> does.
\<close>

theorem search_post_drops_equal_post:
  "snd (add_post (Some ''Second post'') (Some ''This is the second post.'')
         (snd (delete_post 1 POSTS_seed))) =
     [\<lparr>p_id = 2, p_title = ''Second post'', p_content = ''This is the second post.''\<rparr>,
      \<lparr>p_id = 2, p_title = ''Second post'', p_content = ''This is the second post.''\<rparr>] \<and>
   fst (search_post lower None (Some ''This is the second post.'')
         [\<lparr>p_id = 2, p_title = ''Second post'', p_content = ''This is the second post.''\<rparr>,
          \<lparr>p_id = 2, p_title = ''Second post'', p_content = ''This is the second post.''\<rparr>]) =
     (PostList [\<lparr>p_id = 2, p_title = ''Second post'', p_content = ''This is the second post.''\<rparr>], 200) \<and>
   filter (search_matches lower None (Some ''This is the second post.''))
         [\<lparr>p_id = 2, p_title = ''Second post'', p_content = ''This is the second post.''\<rparr>,
          \<lparr>p_id = 2, p_title = ''Second post'', p_content = ''This is the second post.''\<rparr>] =
     [\<lparr>p_id = 2, p_title = ''Second post'', p_content = ''This is the second post.''\<rparr>,
      \<lparr>p_id = 2, p_title = ''Second post'', p_content = ''This is the second post.''\<rparr>] \<and>
   fst (search_post lower (Some ''Second post'') None
         [\<lparr>p_id = 2, p_title = ''Second post'', p_content = ''This is the second post.''\<rparr>,
          \<lparr>p_id = 2, p_title = ''Second post'', p_content = ''This is the second post.''\<rparr>]) =
     (PostList
        [\<lparr>p_id = 2, p_title = ''Second post'', p_content = ''This is the second post.''\<rparr>,
         \<lparr>p_id = 2, p_title = ''Second post'', p_content = ''This is the second post.''\<rparr>], 200)"
proof -
  define P where "P = \<lparr>p_id = 2, p_title = ''Second post'', p_content = ''This is the second post.''\<rparr>"
  have a: "snd (add_post (Some ''Second post'') (Some ''This is the second post.'')
         (snd (delete_post 1 POSTS_seed))) =
     [\<lparr>p_id = 2, p_title = ''Second post'', p_content = ''This is the second post.''\<rparr>,
      \<lparr>p_id = 2, p_title = ''Second post'', p_content = ''This is the second post.''\<rparr>]"
    by code_simp
  have same: "sublist (lower xs) (lower xs)" for xs :: string
    using sublist_appendI [of "lower xs" "[]" "[]"] by simp
  have c: "sublist (lower ''This is the second post.'') (lower (p_content P))"
    and t: "sublist (lower ''Second post'') (lower (p_title P))"
    unfolding P_def by (simp_all add: same)
  have b: "fst (search_post lower None (Some ''This is the second post.'') [P, P]) =
      (PostList [P], 200)"
    using c by (simp add: search_post_def Let_def)
  have f: "filter (search_matches lower None (Some ''This is the second post.'')) [P, P] = [P, P]"
    using c by (simp add: search_matches_def)
  have g: "fst (search_post lower (Some ''Second post'') None [P, P]) = (PostList [P, P], 200)"
    using t by (simp add: search_post_def Let_def)
  from a b f g show ?thesis unfolding P_def by (intro conjI)
qed

theorem search_post_drops_equal_post_witness:
  "fst (search_post ascii_lower None (Some ''This is the second post.'')
         [\<lparr>p_id = 2, p_title = ''Second post'', p_content = ''This is the second post.''\<rparr>,
          \<lparr>p_id = 2, p_title = ''Second post'', p_content = ''This is the second post.''\<rparr>]) =
     (PostList [\<lparr>p_id = 2, p_title = ''Second post'', p_content = ''This is the second post.''\<rparr>], 200)"
  using search_post_drops_equal_post [of ascii_lower]
  by (rule conjunct1 [OF conjunct2])

end
